theory Spec2Isabelle
  imports Main "HOL-Library.Sublist"
begin

section \<open>Values, errors and observable effects\<close>

text \<open>
  JavaScript strings are modelled as \<open>string\<close> (ASCII text). A value that may be
  \<^verbatim>\<open>undefined\<close> (an array read past the end, a function that falls off its end) is an
  \<open>option\<close>, with \<open>None\<close> for \<^verbatim>\<open>undefined\<close>.

  A thrown JavaScript exception is a value of \<open>js_error\<close>; \<open>message\<close> reads its
  \<^verbatim>\<open>.message\<close> property.
\<close>

datatype js_error = Error string | TypeError string

fun message :: "js_error \<Rightarrow> string" where
  "message (Error m) = m"
| "message (TypeError m) = m"

text \<open>
  Everything the scripts do to the outside world is recorded as an event, in the order it
  happens: a spawned command line, a console line (\<^verbatim>\<open>logInfo\<close>, \<^verbatim>\<open>logSuccess\<close>,
  \<^verbatim>\<open>logError\<close>; colours are not modelled), a call of the lint engine with its paths and
  its \<^verbatim>\<open>fix\<close> option, and a call of \<^verbatim>\<open>ESLint.outputFixes\<close>.
\<close>

datatype event =
    Exec string
  | LogInfo string
  | LogSuccess string
  | LogError string
  | LintFiles "string option list" bool
  | OutputFixes

text \<open>
  An \<^verbatim>\<open>async\<close> function that is awaited at once runs to its end before its caller goes
  on, so it is a computation that yields the events it caused and either the exception it
  threw (\<open>Inl\<close>) or the value it returned (\<open>Inr\<close>).
\<close>

type_synonym 'a io = "event list \<times> (js_error + 'a)"

definition io_return :: "'a \<Rightarrow> 'a io" where
  "io_return x = ([], Inr x)"

definition io_throw :: "js_error \<Rightarrow> 'a io" where
  "io_throw e = ([], Inl e)"

definition io_emit :: "event \<Rightarrow> unit io" where
  "io_emit ev = ([ev], Inr ())"

definition io_bind :: "'a io \<Rightarrow> ('a \<Rightarrow> 'b io) \<Rightarrow> 'b io" where
  "io_bind m f =
     (case m of
        (t, Inl e) \<Rightarrow> (t, Inl e)
      | (t, Inr x) \<Rightarrow> (case f x of (t', r) \<Rightarrow> (t @ t', r)))"

definition io_then :: "unit io \<Rightarrow> 'b io \<Rightarrow> 'b io" where
  "io_then m k = io_bind m (\<lambda>_. k)"

text \<open>\<^verbatim>\<open>try { body } catch (err) { handler }\<close>\<close>

definition io_catch :: "'a io \<Rightarrow> (js_error \<Rightarrow> 'a io) \<Rightarrow> 'a io" where
  "io_catch body handler =
     (case body of
        (t, Inl e) \<Rightarrow> (case handler e of (t', r) \<Rightarrow> (t @ t', r))
      | (t, Inr x) \<Rightarrow> (t, Inr x))"

definition trace :: "'a io \<Rightarrow> event list" where
  "trace m = fst m"

definition outcome :: "'a io \<Rightarrow> js_error + 'a" where
  "outcome m = snd m"


section \<open>The environment of a run\<close>

text \<open>
  What a spawned process did: its exit code and the text it wrote to its two streams.
\<close>

record proc_result =
  exitCode :: int
  stdout :: string
  stderr :: string

text \<open>
  One result of the lint engine (one linted file): only its \<^verbatim>\<open>warningCount\<close> and its
  \<^verbatim>\<open>errorCount\<close> are read.
\<close>

record eslint_result =
  fileWarningCount :: nat
  fileErrorCount :: nat

text \<open>
  The world a run sees: the process arguments, what each command line does when spawned
  (the git state), which paths exist on disk, and the lint engine (its \<^verbatim>\<open>lintFiles\<close> with
  the \<^verbatim>\<open>fix\<close> option, \<^verbatim>\<open>outputFixes\<close>, and the \<^verbatim>\<open>stylish\<close> formatter), each of
  which may throw.
\<close>

record world =
  argv :: "string list"
  spawn :: "string \<Rightarrow> proc_result"
  existsSync :: "string \<Rightarrow> bool"
  lintFiles :: "string option list \<Rightarrow> bool \<Rightarrow> js_error + eslint_result list"
  outputFixes :: "eslint_result list \<Rightarrow> js_error option"
  stylish :: "eslint_result list \<Rightarrow> js_error + string"


section \<open>utils/shell.js\<close>

text \<open>
  \<^verbatim>\<open>util.promisify(child_process.exec)\<close>: the promise is rejected when the process ends with
  a non-zero exit code, and resolves to both captured streams otherwise.
\<close>

definition exec :: "world \<Rightarrow> string \<Rightarrow> (string \<times> string) io" where
  "exec w cmd =
     (let p = spawn w cmd in
      ([Exec cmd],
       if exitCode p \<noteq> 0
       then Inl (Error (''Command failed: '' @ cmd @ [CHR 0x0A] @ stderr p))
       else Inr (stdout p, stderr p)))"

text \<open>
  \<^verbatim>\<open>
  const runCmd = async cmd => {
    const { stdout, stderr } = await exec(cmd)
    if (stderr) { throw new Error(stderr) }
    return stdout
  }
  \<close>
  A string is truthy when it is not empty.
\<close>

definition runCmd :: "world \<Rightarrow> string \<Rightarrow> string io" where
  "runCmd w cmd =
     io_bind (exec w cmd) (\<lambda>(out, err).
       if err \<noteq> [] then io_throw (Error err) else io_return out)"

definition logError :: "string \<Rightarrow> unit io" where
  "logError msg = io_emit (LogError msg)"

definition logSuccess :: "string \<Rightarrow> unit io" where
  "logSuccess msg = io_emit (LogSuccess msg)"

definition logInfo :: "string \<Rightarrow> unit io" where
  "logInfo msg = io_emit (LogInfo msg)"

text \<open>\<^verbatim>\<open>process.argv.indexOf(arg) !== -1\<close>\<close>

definition hasArg :: "world \<Rightarrow> string \<Rightarrow> bool" where
  "hasArg w arg = (arg \<in> set (argv w))"



section \<open>utils/git.js\<close>

subsection \<open>String primitives\<close>

text \<open>
  The white space of \<^verbatim>\<open>String.prototype.trim\<close> and of the regular expression class
  \<^verbatim>\<open>\s\<close>, within ASCII: tab, line feed, vertical tab, form feed, carriage return, space.
\<close>

definition isSpace :: "char \<Rightarrow> bool" where
  "isSpace c = (c \<in> set [CHR 0x09, CHR 0x0A, CHR 0x0B, CHR 0x0C, CHR 0x0D, CHR 0x20])"

definition trim :: "string \<Rightarrow> string" where
  "trim s = rev (dropWhile isSpace (rev (dropWhile isSpace s)))"

text \<open>\<^verbatim>\<open>s.split(c)\<close> for a one-character separator: never the empty array.\<close>

fun split_on :: "char \<Rightarrow> string \<Rightarrow> string list" where
  "split_on c [] = [[]]"
| "split_on c (x # xs) =
     (if x = c then [] # split_on c xs
      else (case split_on c xs of [] \<Rightarrow> [[x]] | l # ls \<Rightarrow> (x # l) # ls))"

text \<open>
  \<^verbatim>\<open>s.split(/\s+/)\<close>: every maximal run of white space is one separator, so leading or
  trailing white space leaves an empty first or last piece.
\<close>

function split_ws :: "string \<Rightarrow> string list" where
  "split_ws [] = [[]]"
| "split_ws (x # xs) =
     (if isSpace x then [] # split_ws (dropWhile isSpace xs)
      else (case split_ws xs of [] \<Rightarrow> [[x]] | l # ls \<Rightarrow> (x # l) # ls))"
  by pat_completeness auto
termination
  by (relation "measure length") (auto simp: length_dropWhile_le less_Suc_eq_le)

text \<open>\<^verbatim>\<open>xs[i]\<close>: \<^verbatim>\<open>undefined\<close> past the end.\<close>

definition at :: "'a list \<Rightarrow> nat \<Rightarrow> 'a option" where
  "at xs i = (if i < length xs then Some (xs ! i) else None)"

text \<open>\<^verbatim>\<open>s.indexOf(t)\<close>: the first position where \<open>t\<close> occurs in \<open>s\<close>, or \<open>-1\<close>.\<close>

fun indexOf :: "string \<Rightarrow> string \<Rightarrow> int" where
  "indexOf [] t = (if t = [] then 0 else - 1)"
| "indexOf (c # cs) t =
     (if prefix t (c # cs) then 0
      else (let i = indexOf cs t in if i = - 1 then - 1 else i + 1))"

subsection \<open>The change-set extractor\<close>

text \<open>
  One parsed line, \<^verbatim>\<open>{ mods, file }\<close>; the field \<^verbatim>\<open>file\<close> is named \<open>file_name\<close> here.
\<close>

record change_entry =
  mods :: "string option"
  file_name :: "string option"

text \<open>
  \<^verbatim>\<open>
  const _parseFileList = fileListAsString => {
    const result = fileListAsString.trim()
    if (!result) return []
    return result.split('\n').map(line => {
      const s = line.split(/\s+/).filter(Boolean)
      return { mods: s[0], file: s[1] }
    })
  }
  \<close>
\<close>

definition parseFileList :: "string \<Rightarrow> change_entry list" where
  "parseFileList fileListAsString =
     (let result = trim fileListAsString in
      if result = [] then []
      else map (\<lambda>line.
             let s = filter (\<lambda>t. t \<noteq> []) (split_ws line)
             in \<lparr>mods = at s 0, file_name = at s 1\<rparr>)
           (split_on (CHR 0x0A) result))"

definition pickOutFilenameFromList :: "change_entry list \<Rightarrow> string option list" where
  "pickOutFilenameFromList fileList = map file_name fileList"

definition getCommittedChangedFiles :: "world \<Rightarrow> string \<Rightarrow> string option list io" where
  "getCommittedChangedFiles w baseBranch =
     io_bind (runCmd w (''git diff --name-status '' @ baseBranch @ ''...HEAD''))
       (\<lambda>differentFiles. io_return (pickOutFilenameFromList (parseFileList differentFiles)))"

definition getUncommittedChangedFiles :: "world \<Rightarrow> string option list io" where
  "getUncommittedChangedFiles w =
     io_bind (runCmd w ''git status --porcelain'')
       (\<lambda>statusList. io_return (pickOutFilenameFromList (parseFileList statusList)))"

text \<open>
  lodash's \<^verbatim>\<open>_.union(a, b)\<close>: the values of \<open>a\<close> and then of \<open>b\<close> are visited in order,
  and a value is appended to the result unless the result already holds it.
\<close>

fun baseUniq :: "'a list \<Rightarrow> 'a list \<Rightarrow> 'a list" where
  "baseUniq [] result = result"
| "baseUniq (v # vs) result = baseUniq vs (if v \<in> set result then result else result @ [v])"

definition lodash_union :: "'a list \<Rightarrow> 'a list \<Rightarrow> 'a list" where
  "lodash_union a b = baseUniq (a @ b) []"

definition getChangedFiles :: "world \<Rightarrow> string \<Rightarrow> string option list io" where
  "getChangedFiles w baseBranch =
     io_bind (getCommittedChangedFiles w baseBranch) (\<lambda>committedFiles.
     io_bind (getUncommittedChangedFiles w) (\<lambda>uncommittedFiles.
     io_return (lodash_union committedFiles uncommittedFiles)))"

subsection \<open>The diff content probe\<close>

definition diffContains :: "world \<Rightarrow> string \<Rightarrow> string \<Rightarrow> string \<Rightarrow> bool io" where
  "diffContains w baseBranch fileName searchTerm =
     io_bind (runCmd w (''git diff --unified=0 '' @ baseBranch @ ''...HEAD '' @ fileName))
       (\<lambda>committedDiff.
     io_bind (runCmd w (''git diff --unified=0 HEAD '' @ fileName))
       (\<lambda>uncommittedDiff.
     io_return (indexOf committedDiff searchTerm \<noteq> - 1
                \<or> indexOf uncommittedDiff searchTerm \<noteq> - 1)))"


section \<open>bin/lint.js\<close>

definition fileExtensions :: "string list" where
  "fileExtensions = [''.tsx'', ''.js'', ''.ts'', ''.jsx'']"

definition sourceFoldersToCheck :: "string list" where
  "sourceFoldersToCheck = [''components/'', ''libs/'', ''pages/'', ''services/'']"

definition baseBranchName :: string where
  "baseBranchName = ''master''"

subsection \<open>Running the lint engine\<close>

record lint_results =
  resultText :: string
  warningCount :: nat
  errorCount :: nat

definition eslint_lintFiles :: "world \<Rightarrow> string option list \<Rightarrow> bool \<Rightarrow> eslint_result list io" where
  "eslint_lintFiles w filesOrFolders fix =
     ([LintFiles filesOrFolders fix], lintFiles w filesOrFolders fix)"

definition eslint_outputFixes :: "world \<Rightarrow> eslint_result list \<Rightarrow> unit io" where
  "eslint_outputFixes w results =
     ([OutputFixes], case outputFixes w results of Some e \<Rightarrow> Inl e | None \<Rightarrow> Inr ())"

definition eslint_format :: "world \<Rightarrow> eslint_result list \<Rightarrow> string io" where
  "eslint_format w results = ([], stylish w results)"

text \<open>
  \<^verbatim>\<open>
  const runLintOnFiles = async (filesOrFolders, options) => {
    try {
      const eslint = new ESLint({ extensions: fileExtensions, ...options })
      const results = await eslint.lintFiles(filesOrFolders)
      if (options.fix) { await ESLint.outputFixes(results) }
      const formatter = await eslint.loadFormatter('stylish')
      const resultText = formatter.format(results)
      return { resultText,
               warningCount: _.sum(results.map(r => r.warningCount)),
               errorCount: _.sum(results.map(r => r.errorCount)) }
    } catch (err) {
      logError('Error while running Linter on files')
    }
  }
  \<close>
  The handler returns nothing, so after an exception the function's value is
  \<^verbatim>\<open>undefined\<close>.
\<close>

definition runLintOnFiles :: "world \<Rightarrow> string option list \<Rightarrow> bool \<Rightarrow> lint_results option io" where
  "runLintOnFiles w filesOrFolders fix =
     io_catch
       (io_bind (eslint_lintFiles w filesOrFolders fix) (\<lambda>results.
        io_then (if fix then eslint_outputFixes w results else io_return ())
       (io_bind (eslint_format w results) (\<lambda>text.
        io_return (Some \<lparr>resultText = text,
                          warningCount = sum_list (map fileWarningCount results),
                          errorCount = sum_list (map fileErrorCount results)\<rparr>)))))
       (\<lambda>err. io_then (logError ''Error while running Linter on files'') (io_return None))"

subsection \<open>The invalidation policy\<close>

text \<open>
  \<^verbatim>\<open>
  const triggerFiles = []
  if (changedFiles.includes('.eslintignore')) { triggerFiles.push('.eslintignore') }
  if (changedFiles.includes('.eslintrc')) { triggerFiles.push('.eslintrc') }
  if (changedFiles.includes('package.json') &&
      (await diffContains(baseBranchName, 'package.json', 'eslint'))) {
    triggerFiles.push('package.json')
  }
  return triggerFiles
  \<close>
  \<^verbatim>\<open>&&\<close> does not evaluate its right operand when the left one is false: the probe runs
  only when \<^verbatim>\<open>package.json\<close> is in the list.
\<close>

definition getFilesThatMayPossiblyInvalidateExistingLintChecks ::
    "world \<Rightarrow> string option list \<Rightarrow> string \<Rightarrow> string list io" where
  "getFilesThatMayPossiblyInvalidateExistingLintChecks w changedFiles baseBranch =
     (let triggerFiles0 = [];
          triggerFiles1 = (if Some ''.eslintignore'' \<in> set changedFiles
                           then triggerFiles0 @ [''.eslintignore''] else triggerFiles0);
          triggerFiles2 = (if Some ''.eslintrc'' \<in> set changedFiles
                           then triggerFiles1 @ [''.eslintrc''] else triggerFiles1)
      in io_bind (if Some ''package.json'' \<in> set changedFiles
                  then diffContains w baseBranch ''package.json'' ''eslint''
                  else io_return False)
           (\<lambda>hit. io_return (if hit then triggerFiles2 @ [''package.json''] else triggerFiles2)))"

subsection \<open>The file filters\<close>

text \<open>
  \<^verbatim>\<open>Array.prototype.filter\<close> with a callback that may throw: the elements are visited in
  order and the first exception ends the call.
\<close>

fun js_filter :: "('a \<Rightarrow> js_error + bool) \<Rightarrow> 'a list \<Rightarrow> js_error + 'a list" where
  "js_filter p [] = Inr []"
| "js_filter p (x # xs) =
     (case p x of
        Inl e \<Rightarrow> Inl e
      | Inr b \<Rightarrow> (case js_filter p xs of
                    Inl e \<Rightarrow> Inl e
                  | Inr ys \<Rightarrow> Inr (if b then x # ys else ys)))"

text \<open>
  \<^verbatim>\<open>sourceFoldersToCheck.find(folder => file.startsWith(folder))\<close>, read as a condition: a
  method call on \<^verbatim>\<open>undefined\<close> throws a \<^verbatim>\<open>TypeError\<close>; the folder found is truthy when it
  is not the empty string.
\<close>

definition inSourceFolder :: "string option \<Rightarrow> js_error + bool" where
  "inSourceFolder f =
     (case f of
        None \<Rightarrow> Inl (TypeError ''Cannot read properties of undefined'')
      | Some p \<Rightarrow> Inr (case find (\<lambda>folder. prefix folder p) sourceFoldersToCheck of
                        None \<Rightarrow> False
                      | Some folder \<Rightarrow> folder \<noteq> []))"

definition hasCorrectExtension :: "string option \<Rightarrow> js_error + bool" where
  "hasCorrectExtension f =
     (case f of
        None \<Rightarrow> Inl (TypeError ''Cannot read properties of undefined'')
      | Some p \<Rightarrow> Inr (case find (\<lambda>ext. suffix ext p) fileExtensions of
                        None \<Rightarrow> False
                      | Some ext \<Rightarrow> ext \<noteq> []))"

definition filterFilesInSourceFolders :: "string option list \<Rightarrow> js_error + string option list" where
  "filterFilesInSourceFolders files = js_filter inSourceFolder files"

definition filterFilesOfCorrectExtension :: "string option list \<Rightarrow> js_error + string option list" where
  "filterFilesOfCorrectExtension files = js_filter hasCorrectExtension files"

text \<open>\<^verbatim>\<open>fs.existsSync\<close> never throws; it is false for a value that is not a path.\<close>

definition filterFilesThatStillExist :: "world \<Rightarrow> string option list \<Rightarrow> string option list" where
  "filterFilesThatStillExist w files =
     filter (\<lambda>f. case f of None \<Rightarrow> False | Some p \<Rightarrow> existsSync w p) files"

subsection \<open>Reporting\<close>

text \<open>
  \<^verbatim>\<open>
  const handleLintResults = ({ resultText, errorCount, warningCount }) => {
    try {
      logInfo(resultText)
      if (errorCount || warningCount) {
        // Throw an empty error, just so the exit code becomes 1
        throw new Error('')
      } else {
        logSuccess('Lint checks passed')
      }
    } catch (error) {
      logError('Error while display the lint results - ', error)
    }
  }
  \<close>
  The parameter is a destructuring pattern: binding it to \<^verbatim>\<open>undefined\<close> throws a
  \<^verbatim>\<open>TypeError\<close> before the body, and so outside its \<^verbatim>\<open>try\<close> (the exact wording of the
  message is the JavaScript engine's; it is not empty). \<^verbatim>\<open>logError\<close> has one parameter and
  prints only its first argument.
\<close>

definition handleLintResults :: "lint_results option \<Rightarrow> unit io" where
  "handleLintResults arg =
     (case arg of
        None \<Rightarrow> io_throw (TypeError ''Cannot destructure property resultText of undefined'')
      | Some r \<Rightarrow>
          io_catch
            (io_then (logInfo (resultText r))
               (if errorCount r \<noteq> 0 \<or> warningCount r \<noteq> 0
                then io_throw (Error [])
                else logSuccess ''Lint checks passed''))
            (\<lambda>error. logError ''Error while display the lint results - ''))"

subsection \<open>The orchestrator\<close>

fun join :: "string \<Rightarrow> string list \<Rightarrow> string" where
  "join sep [] = []"
| "join sep [x] = x"
| "join sep (x # y # ys) = x @ sep @ join sep (y # ys)"

text \<open>A number inside a template literal: its decimal digits.\<close>

fun string_of_nat :: "nat \<Rightarrow> string" where
  "string_of_nat n =
     (if n < 10 then [''0123456789'' ! n]
      else string_of_nat (n div 10) @ [''0123456789'' ! (n mod 10)])"

declare string_of_nat.simps [simp del]

definition io_of :: "js_error + 'a \<Rightarrow> 'a io" where
  "io_of r = ([], r)"

text \<open>
  \<^verbatim>\<open>
  const runLinting = async () => {
    const lintOptions = { fix: hasArg('--fix') }
    if (!hasArg('--changed')) {
      logInfo('Running lint checks on all files')
      const lintResults = await runLintOnFiles(sourceFoldersToCheck, lintOptions)
      handleLintResults(lintResults)
      return
    }
    const changedFiles = filterFilesThatStillExist(await getChangedFiles(baseBranchName))
    const configFileChanged =
      await getFilesThatMayPossiblyInvalidateExistingLintChecks(changedFiles, baseBranchName)
    if (configFileChanged.length) {
      logInfo('Running lint checks on all files, since changes were made to: ' +
              configFileChanged.join(', '))
      const lintResults = await runLintOnFiles(sourceFoldersToCheck, lintOptions)
      handleLintResults(lintResults)
      return
    }
    const filteredChangedFiles =
      _.flow(filterFilesInSourceFolders, filterFilesOfCorrectExtension)(changedFiles)
    if (!filteredChangedFiles.length) {
      logInfo(`There are no updated files since ${baseBranchName}. No linting required.`)
      return
    }
    logInfo(`Running lint checks on ${filteredChangedFiles.length} files(s), ` +
            `which were changed since "${baseBranchName}".`)
    const lintResults = await runLintOnFiles(filteredChangedFiles, lintOptions)
    handleLintResults(lintResults)
  }
  \<close>
\<close>

definition runLinting :: "world \<Rightarrow> unit io" where
  "runLinting w =
     (let fix = hasArg w ''--fix'' in
      if \<not> hasArg w ''--changed'' then
        io_then (logInfo ''Running lint checks on all files'')
       (io_bind (runLintOnFiles w (map Some sourceFoldersToCheck) fix) handleLintResults)
      else
        io_bind (getChangedFiles w baseBranchName) (\<lambda>allChanged.
        let changedFiles = filterFilesThatStillExist w allChanged in
        io_bind (getFilesThatMayPossiblyInvalidateExistingLintChecks w changedFiles baseBranchName)
          (\<lambda>configFileChanged.
        if configFileChanged \<noteq> [] then
          io_then (logInfo (''Running lint checks on all files, since changes were made to: ''
                            @ join '', '' configFileChanged))
         (io_bind (runLintOnFiles w (map Some sourceFoldersToCheck) fix) handleLintResults)
        else
          io_bind (io_of (filterFilesInSourceFolders changedFiles)) (\<lambda>inFolders.
          io_bind (io_of (filterFilesOfCorrectExtension inFolders)) (\<lambda>filteredChangedFiles.
          if filteredChangedFiles = [] then
            logInfo (''There are no updated files since '' @ baseBranchName
                     @ ''. No linting required.'')
          else
            io_then (logInfo (''Running lint checks on ''
                              @ string_of_nat (length filteredChangedFiles)
                              @ '' files(s), which were changed since '' @ [CHR 0x22]
                              @ baseBranchName @ [CHR 0x22] @ ''.''))
           (io_bind (runLintOnFiles w filteredChangedFiles fix) handleLintResults))))))"

text \<open>
  \<^verbatim>\<open>
  ;(async () => {
    try { await runLinting() }
    catch (ex) {
      if (ex.message) { logError(ex.message) }
      process.exit(1)
    }
  })()
  \<close>
  The script as a whole: the events of the run and the exit code of the process, which is
  0 when nothing calls \<^verbatim>\<open>process.exit\<close>.
\<close>

definition main :: "world \<Rightarrow> event list \<times> nat" where
  "main w =
     (case runLinting w of
        (t, Inr _) \<Rightarrow> (t, 0)
      | (t, Inl ex) \<Rightarrow> (t @ (if message ex \<noteq> [] then [LogError (message ex)] else []), 1))"

definition exitCode_of :: "event list \<times> nat \<Rightarrow> nat" where
  "exitCode_of r = snd r"

definition events_of :: "event list \<times> nat \<Rightarrow> event list" where
  "events_of r = fst r"


section \<open>Vocabulary of the properties\<close>

subsection \<open>Lines and tokens of a status text\<close>

text \<open>
  A line is blank when it holds white space only. The white-space-delimited tokens of a
  line are its maximal runs of characters that are not white space, from left to right.
\<close>

definition blank :: "string \<Rightarrow> bool" where
  "blank l = list_all isSpace l"

function ws_tokens :: "string \<Rightarrow> string list" where
  "ws_tokens [] = []"
| "ws_tokens (c # cs) =
     (if isSpace c then ws_tokens cs
      else takeWhile (\<lambda>x. \<not> isSpace x) (c # cs) # ws_tokens (dropWhile (\<lambda>x. \<not> isSpace x) cs))"
  by pat_completeness auto
termination
  by (relation "measure length") (auto simp: length_dropWhile_le less_Suc_eq_le)

text \<open>
  A status text has no interior blank line when, once the blank lines before its first and
  after its last non-blank line are set aside, no blank line is left.
\<close>

definition strip_blank :: "string list \<Rightarrow> string list" where
  "strip_blank ls = rev (dropWhile blank (rev (dropWhile blank ls)))"

definition well_formed :: "string \<Rightarrow> bool" where
  "well_formed s = list_all (\<lambda>l. \<not> blank l) (strip_blank (split_on (CHR 0x0A) s))"

subsection \<open>Order of first occurrence\<close>

text \<open>The position at which a value first occurs in a list (its length, if it never does).\<close>

definition first_index :: "'a list \<Rightarrow> 'a \<Rightarrow> nat" where
  "first_index xs x = length (takeWhile (\<lambda>z. z \<noteq> x) xs)"

subsection \<open>Events of a run\<close>

fun is_lint :: "event \<Rightarrow> bool" where
  "is_lint (LintFiles paths fix) = True"
| "is_lint ev = False"

fun is_exec :: "event \<Rightarrow> bool" where
  "is_exec (Exec cmd) = True"
| "is_exec ev = False"

text \<open>The calls of the lint engine, and the command lines spawned, among the events of a run.\<close>

definition lint_invocations :: "event list \<Rightarrow> event list" where
  "lint_invocations tr = filter is_lint tr"

definition git_queries :: "event list \<Rightarrow> event list" where
  "git_queries tr = filter is_exec tr"

text \<open>Linting a path list and reporting on it: the two statements that end every run.\<close>

definition lintAndReport :: "world \<Rightarrow> string option list \<Rightarrow> bool \<Rightarrow> unit io" where
  "lintAndReport w paths fix = io_bind (runLintOnFiles w paths fix) handleLintResults"

subsection \<open>The filter order of the specification\<close>

text \<open>
  The incremental run with the filter order of the specification (sections 4.5 and 4.6):
  the invalidation policy looks at the change set as extracted, and the filters are applied
  in the order source folder, extension, existence on disk. Everything else is as in
  \<open>runLinting\<close>.
\<close>

definition runLinting_existence_last :: "world \<Rightarrow> unit io" where
  "runLinting_existence_last w =
     (let fix = hasArg w ''--fix'' in
      if \<not> hasArg w ''--changed'' then
        io_then (logInfo ''Running lint checks on all files'')
       (io_bind (runLintOnFiles w (map Some sourceFoldersToCheck) fix) handleLintResults)
      else
        io_bind (getChangedFiles w baseBranchName) (\<lambda>changedFiles.
        io_bind (getFilesThatMayPossiblyInvalidateExistingLintChecks w changedFiles baseBranchName)
          (\<lambda>configFileChanged.
        if configFileChanged \<noteq> [] then
          io_then (logInfo (''Running lint checks on all files, since changes were made to: ''
                            @ join '', '' configFileChanged))
         (io_bind (runLintOnFiles w (map Some sourceFoldersToCheck) fix) handleLintResults)
        else
          io_bind (io_of (filterFilesInSourceFolders changedFiles)) (\<lambda>inFolders.
          io_bind (io_of (filterFilesOfCorrectExtension inFolders)) (\<lambda>ofExtension.
          let filteredChangedFiles = filterFilesThatStillExist w ofExtension in
          if filteredChangedFiles = [] then
            logInfo (''There are no updated files since '' @ baseBranchName
                     @ ''. No linting required.'')
          else
            io_then (logInfo (''Running lint checks on ''
                              @ string_of_nat (length filteredChangedFiles)
                              @ '' files(s), which were changed since '' @ [CHR 0x22]
                              @ baseBranchName @ [CHR 0x22] @ ''.''))
           (io_bind (runLintOnFiles w filteredChangedFiles fix) handleLintResults))))))"


section \<open>Example inputs\<close>

definition status_example :: string where
  "status_example =
     '' M components/App.tsx'' @ [CHR 0x0A] @ ''?? libs/new.js'' @ [CHR 0x0A] @ ''D'' @ [CHR 0x0A]"

definition blank_example :: string where
  "blank_example = [CHR 0x20, CHR 0x09, CHR 0x0A, CHR 0x0A]"

text \<open>
  Three processes: one that succeeds but writes a warning to standard error, one that
  succeeds silently, and one that fails.
\<close>

definition warning_world :: world where
  "warning_world =
     \<lparr>argv = [],
      spawn = (\<lambda>cmd. \<lparr>exitCode = 0, stdout = ''partial output'', stderr = ''warning: LF will be replaced''\<rparr>),
      existsSync = (\<lambda>p. False),
      lintFiles = (\<lambda>paths fix. Inr []),
      outputFixes = (\<lambda>results. None),
      stylish = (\<lambda>results. Inr [])\<rparr>"

definition quiet_world :: world where
  "quiet_world =
     \<lparr>argv = [],
      spawn = (\<lambda>cmd. \<lparr>exitCode = 0, stdout = ''M README.md'', stderr = []\<rparr>),
      existsSync = (\<lambda>p. False),
      lintFiles = (\<lambda>paths fix. Inr []),
      outputFixes = (\<lambda>results. None),
      stylish = (\<lambda>results. Inr [])\<rparr>"

definition failed_world :: world where
  "failed_world =
     \<lparr>argv = [],
      spawn = (\<lambda>cmd. \<lparr>exitCode = 128, stdout = [], stderr = ''fatal: not a git repository''\<rparr>),
      existsSync = (\<lambda>p. False),
      lintFiles = (\<lambda>paths fix. Inr []),
      outputFixes = (\<lambda>results. None),
      stylish = (\<lambda>results. Inr [])\<rparr>"

text \<open>
  A world whose git answers three command lines (the committed changes, the working-tree
  status, the committed diff of \<^verbatim>\<open>package.json\<close>) and nothing else, where exactly the
  paths of \<open>present\<close> exist, and whose lint engine always gives \<open>engine\<close>.
\<close>

definition example_world ::
    "string list \<Rightarrow> string \<Rightarrow> string \<Rightarrow> string \<Rightarrow> string list \<Rightarrow>
     (js_error + eslint_result list) \<Rightarrow> world" where
  "example_world args committed status manifestDiff present engine =
     \<lparr>argv = args,
      spawn = (\<lambda>cmd. \<lparr>exitCode = 0,
                        stdout = (if cmd = ''git diff --name-status master...HEAD'' then committed
                                  else if cmd = ''git status --porcelain'' then status
                                  else if cmd = ''git diff --unified=0 master...HEAD package.json''
                                  then manifestDiff else []),
                        stderr = []\<rparr>),
      existsSync = (\<lambda>p. p \<in> set present),
      lintFiles = (\<lambda>paths fix. engine),
      outputFixes = (\<lambda>results. None),
      stylish = (\<lambda>results. Inr ''report'')\<rparr>"

definition incremental_world :: world where
  "incremental_world =
     example_world [''node'', ''bin/lint.js'', ''--changed'']
       (''M'' @ [CHR 0x09] @ ''components/App.tsx'' @ [CHR 0x0A]
        @ ''D'' @ [CHR 0x09] @ ''components/ghost.tsx'' @ [CHR 0x0A]
        @ ''M'' @ [CHR 0x09] @ ''README.md'' @ [CHR 0x0A])
       ('' M components/App.tsx'' @ [CHR 0x0A] @ ''?? libs/new.js'' @ [CHR 0x0A])
       []
       [''components/App.tsx'', ''README.md'', ''libs/new.js'']
       (Inr [\<lparr>fileWarningCount = 0, fileErrorCount = 0\<rparr>])"

definition manifest_world :: world where
  "manifest_world =
     example_world [''node'', ''bin/lint.js'', ''--changed'']
       (''M'' @ [CHR 0x09] @ ''package.json'' @ [CHR 0x0A]
        @ ''M'' @ [CHR 0x09] @ ''.eslintrc'' @ [CHR 0x0A])
       []
       (''+    eslint-plugin-react: 7.20.0'')
       [''package.json'', ''.eslintrc'']
       (Inr [\<lparr>fileWarningCount = 0, fileErrorCount = 0\<rparr>])"

definition deleted_config_world :: world where
  "deleted_config_world =
     example_world [''node'', ''bin/lint.js'', ''--changed'']
       (''D'' @ [CHR 0x09] @ ''.eslintrc'' @ [CHR 0x0A]
        @ ''M'' @ [CHR 0x09] @ ''components/App.tsx'' @ [CHR 0x0A])
       []
       []
       [''components/App.tsx'']
       (Inr [\<lparr>fileWarningCount = 0, fileErrorCount = 0\<rparr>])"

text \<open>The same change set, with \<^verbatim>\<open>.eslintrc\<close> modified instead of deleted.\<close>

definition changed_config_world :: world where
  "changed_config_world =
     example_world [''node'', ''bin/lint.js'', ''--changed'']
       (''M'' @ [CHR 0x09] @ ''.eslintrc'' @ [CHR 0x0A]
        @ ''M'' @ [CHR 0x09] @ ''components/App.tsx'' @ [CHR 0x0A])
       []
       []
       [''.eslintrc'', ''components/App.tsx'']
       (Inr [\<lparr>fileWarningCount = 0, fileErrorCount = 0\<rparr>])"

definition readme_world :: world where
  "readme_world =
     example_world [''node'', ''bin/lint.js'', ''--changed'']
       (''M'' @ [CHR 0x09] @ ''README.md'' @ [CHR 0x0A]
        @ ''D'' @ [CHR 0x09] @ ''components/ghost.tsx'' @ [CHR 0x0A])
       []
       []
       [''README.md'']
       (Inr [\<lparr>fileWarningCount = 0, fileErrorCount = 0\<rparr>])"

definition full_world :: world where
  "full_world =
     example_world [''node'', ''bin/lint.js''] [] [] [] []
       (Inr [\<lparr>fileWarningCount = 0, fileErrorCount = 0\<rparr>])"

definition failing_lint_world :: world where
  "failing_lint_world =
     example_world [''node'', ''bin/lint.js''] [] [] [] []
       (Inr [\<lparr>fileWarningCount = 1, fileErrorCount = 2\<rparr>,
             \<lparr>fileWarningCount = 0, fileErrorCount = 1\<rparr>])"

definition broken_engine_world :: world where
  "broken_engine_world =
     example_world [''node'', ''bin/lint.js''] [] [] [] []
       (Inl (Error ''Failed to load config''))"


section \<open>Properties of the command runner\<close>

lemma runCmd_outcome:
  "outcome (runCmd w cmd) =
     (if exitCode (spawn w cmd) \<noteq> 0
      then Inl (Error (''Command failed: '' @ cmd @ [CHR 0x0A] @ stderr (spawn w cmd)))
      else if stderr (spawn w cmd) \<noteq> [] then Inl (Error (stderr (spawn w cmd)))
      else Inr (stdout (spawn w cmd)))"
  by (simp add: runCmd_def exec_def io_bind_def io_throw_def io_return_def outcome_def Let_def)

lemma runCmd_trace: "trace (runCmd w cmd) = [Exec cmd]"
  by (simp add: runCmd_def exec_def io_bind_def io_throw_def io_return_def trace_def Let_def)

text \<open>
  C7. For every command line, the command runner fails whenever the process wrote a
  non-empty text to standard error, whatever its exit code (with exit code 0 the error
  carries that text); when it succeeds, standard error was empty and the value returned is
  the captured standard output; and a process that ends with exit code 0 and an empty
  standard error does make it succeed.
\<close>

theorem runCmd_fails_on_stderr:
  "(stderr (spawn w cmd) \<noteq> [] \<longrightarrow> (\<exists>e. outcome (runCmd w cmd) = Inl e))
   \<and> (stderr (spawn w cmd) \<noteq> [] \<and> exitCode (spawn w cmd) = 0 \<longrightarrow>
        outcome (runCmd w cmd) = Inl (Error (stderr (spawn w cmd))))
   \<and> (\<forall>out. outcome (runCmd w cmd) = Inr out \<longrightarrow>
        stderr (spawn w cmd) = [] \<and> out = stdout (spawn w cmd))
   \<and> (stderr (spawn w cmd) = [] \<and> exitCode (spawn w cmd) = 0 \<longrightarrow>
        outcome (runCmd w cmd) = Inr (stdout (spawn w cmd)))"
  by (simp add: runCmd_outcome)

theorem runCmd_fails_on_stderr_witness:
  "outcome (runCmd warning_world ''git status --porcelain'') =
     Inl (Error ''warning: LF will be replaced'')
   \<and> (\<exists>e. outcome (runCmd failed_world ''git status --porcelain'') = Inl e)
   \<and> outcome (runCmd quiet_world ''git status --porcelain'') = Inr ''M README.md''"
  using runCmd_fails_on_stderr[of warning_world "''git status --porcelain''"]
        runCmd_fails_on_stderr[of failed_world "''git status --porcelain''"]
        runCmd_fails_on_stderr[of quiet_world "''git status --porcelain''"]
  by (simp add: warning_world_def quiet_world_def failed_world_def)


section \<open>Properties of the status parser\<close>

lemma split_ws_dropWhile:
  "filter (\<lambda>t. t \<noteq> []) (split_ws (dropWhile isSpace s)) = filter (\<lambda>t. t \<noteq> []) (split_ws s)"
  by (induction s) auto

lemma split_ws_unfold:
  "split_ws xs = takeWhile (\<lambda>x. \<not> isSpace x) xs #
     (case dropWhile (\<lambda>x. \<not> isSpace x) xs of [] \<Rightarrow> [] | y # r \<Rightarrow> split_ws (dropWhile isSpace r))"
  by (induction xs) (auto split: list.splits)

lemma tokens_eq: "filter (\<lambda>t. t \<noteq> []) (split_ws l) = ws_tokens l"
proof (induction l rule: ws_tokens.induct)
  case 1
  then show ?case by simp
next
  case (2 c cs)
  show ?case
  proof (cases "isSpace c")
    case True
    with 2 show ?thesis by (simp add: split_ws_dropWhile)
  next
    case False
    note IH = 2(2)[OF False]
    show ?thesis
    proof (cases "dropWhile (\<lambda>x. \<not> isSpace x) cs")
      case Nil
      with False show ?thesis
        by (subst split_ws_unfold) (simp del: dropWhile_eq_Nil_conv)
    next
      case (Cons y r)
      then have y: "isSpace y"
        using hd_dropWhile[of "\<lambda>x. \<not> isSpace x" cs] by auto
      from IH Cons y have "filter (\<lambda>t. t \<noteq> []) (split_ws (dropWhile isSpace r)) = ws_tokens (y # r)"
        by simp
      with False Cons show ?thesis
        by (subst split_ws_unfold) simp
    qed
  qed
qed

lemma ws_tokens_space_prefix: "list_all isSpace w \<Longrightarrow> ws_tokens (w @ l) = ws_tokens l"
  by (induction w) auto

lemma ws_tokens_all_space: "list_all isSpace w \<Longrightarrow> ws_tokens w = []"
  using ws_tokens_space_prefix[of w "[]"] by simp

lemma ws_tokens_space_suffix: "list_all isSpace w \<Longrightarrow> ws_tokens (l @ w) = ws_tokens l"
proof (induction l rule: ws_tokens.induct)
  case 1
  then show ?case by (simp add: ws_tokens_all_space)
next
  case (2 c cs)
  show ?case
  proof (cases "isSpace c")
    case True
    with 2 show ?thesis by simp
  next
    case False
    note IH = 2(2)[OF False 2(3)]
    have tw: "takeWhile (\<lambda>x. \<not> isSpace x) w = []" and dw: "dropWhile (\<lambda>x. \<not> isSpace x) w = w"
      using 2(3) by (cases w; simp)+
    show ?thesis
    proof (cases "\<forall>x\<in>set cs. \<not> isSpace x")
      case True
      then have d: "dropWhile (\<lambda>x. \<not> isSpace x) cs = []"
        and t: "takeWhile (\<lambda>x. \<not> isSpace x) cs = cs" by simp_all
      from True False 2(3) show ?thesis
        by (simp add: takeWhile_append dropWhile_append ws_tokens_all_space tw dw d t
                 del: dropWhile_eq_Nil_conv takeWhile_eq_all_conv)
    next
      case F: False
      with False IH show ?thesis
        by (auto simp add: takeWhile_append dropWhile_append)
    qed
  qed
qed

lemma ws_tokens_Nil_iff: "ws_tokens l = [] \<longleftrightarrow> list_all isSpace l"
  by (induction l) auto

lemma blank_iff: "blank l \<longleftrightarrow> ws_tokens l = []"
  by (simp add: blank_def ws_tokens_Nil_iff)

lemma split_on_ne: "split_on c s \<noteq> []"
  by (induction s) (auto split: list.splits)

lemma split_on_append:
  "split_on c (xs @ ys) =
     butlast (split_on c xs) @ [last (split_on c xs) @ hd (split_on c ys)] @ tl (split_on c ys)"
proof (induction xs)
  case Nil
  then show ?case using split_on_ne[of c ys] by (cases "split_on c ys") auto
next
  case (Cons x xs)
  then show ?case
    using split_on_ne[of c xs] split_on_ne[of c "xs @ ys"]
    by (cases "split_on c xs"; cases "split_on c (xs @ ys)") (auto split: list.splits if_splits)
qed

lemma split_on_all_space: "list_all isSpace s \<Longrightarrow> list_all (list_all isSpace) (split_on c s)"
  by (induction s) (auto split: list.splits)

lemma map_ws_tokens_blank:
  "list_all (list_all isSpace) X \<Longrightarrow> map ws_tokens X = replicate (length X) []"
  by (induction X) (auto simp: ws_tokens_all_space)

lemma line_tokens_space_prefix:
  assumes "list_all isSpace a"
  shows "map ws_tokens (split_on c (a @ m)) =
           replicate (length (split_on c a) - 1) [] @ map ws_tokens (split_on c m)"
proof -
  have X: "list_all (list_all isSpace) (split_on c a)"
    using assms by (rule split_on_all_space)
  then have bl: "list_all (list_all isSpace) (butlast (split_on c a))"
    by (auto simp: list_all_iff dest: in_set_butlastD)
  have la: "list_all isSpace (last (split_on c a))"
    using X split_on_ne[of c a] by (auto simp: list_all_iff)
  have "map ws_tokens (split_on c m) = ws_tokens (hd (split_on c m)) # map ws_tokens (tl (split_on c m))"
    using split_on_ne[of c m] by (cases "split_on c m") auto
  then show ?thesis
    by (simp add: split_on_append[of c a m] map_ws_tokens_blank[OF bl]
                  ws_tokens_space_prefix[OF la])
qed

lemma line_tokens_space_suffix:
  assumes "list_all isSpace b"
  shows "map ws_tokens (split_on c (m @ b)) =
           map ws_tokens (split_on c m) @ replicate (length (split_on c b) - 1) []"
proof -
  have X: "list_all (list_all isSpace) (split_on c b)"
    using assms by (rule split_on_all_space)
  then have tl: "list_all (list_all isSpace) (tl (split_on c b))"
    by (cases "split_on c b") auto
  have hd: "list_all isSpace (hd (split_on c b))"
    using X split_on_ne[of c b] by (cases "split_on c b") auto
  have "map ws_tokens (split_on c m) =
          map ws_tokens (butlast (split_on c m)) @ [ws_tokens (last (split_on c m))]"
    using split_on_ne[of c m] by (metis append_butlast_last_id list.simps(8,9) map_append)
  then show ?thesis
    by (simp add: split_on_append[of c m b] map_ws_tokens_blank[OF tl]
                  ws_tokens_space_suffix[OF hd])
qed

lemma rev_drop_take: "rev (dropWhile P xs) @ rev (takeWhile P xs) = rev xs"
  by (metis rev_append takeWhile_dropWhile_id)

lemma dropWhile_trim:
  "dropWhile isSpace s = trim s @ rev (takeWhile isSpace (rev (dropWhile isSpace s)))"
  using rev_drop_take[of isSpace "rev (dropWhile isSpace s)"] by (simp add: trim_def)

lemma trim_decompose:
  "\<exists>a b. s = a @ trim s @ b \<and> list_all isSpace a \<and> list_all isSpace b"
proof -
  let ?u = "dropWhile isSpace s"
  let ?a = "takeWhile isSpace s"
  let ?b = "rev (takeWhile isSpace (rev ?u))"
  have "s = ?a @ ?u" by simp
  then have "s = ?a @ trim s @ ?b" using dropWhile_trim[of s] by simp
  moreover have "list_all isSpace ?a"
    by (auto simp: list_all_iff dest: set_takeWhileD)
  moreover have "list_all isSpace ?b"
    by (auto simp: list_all_iff dest: set_takeWhileD)
  ultimately show ?thesis by blast
qed

lemma trim_ends:
  assumes "trim s \<noteq> []"
  shows "\<not> isSpace (hd (trim s))" and "\<not> isSpace (last (trim s))"
proof -
  let ?u = "dropWhile isSpace s"
  from assms have d: "dropWhile isSpace (rev ?u) \<noteq> []" by (simp add: trim_def)
  then have "\<not> isSpace (hd (dropWhile isSpace (rev ?u)))" by (rule hd_dropWhile)
  with d show "\<not> isSpace (last (trim s))" by (simp add: trim_def last_rev)
  from d have une: "?u \<noteq> []" by (metis dropWhile.simps(1) rev.simps(1))
  then have hu: "\<not> isSpace (hd ?u)" by (rule hd_dropWhile)
  have "hd ?u = hd (trim s)" using assms dropWhile_trim[of s] by (metis hd_append2)
  with hu show "\<not> isSpace (hd (trim s))" by simp
qed

lemma trim_Nil_iff: "trim s = [] \<longleftrightarrow> list_all isSpace s"
proof
  assume "trim s = []"
  then have "dropWhile isSpace s = rev (takeWhile isSpace (rev (dropWhile isSpace s)))"
    using dropWhile_trim[of s] by simp
  then have "\<forall>x\<in>set (dropWhile isSpace s). isSpace x"
    by (metis set_rev set_takeWhileD)
  then have "dropWhile isSpace s = []"
    using hd_dropWhile[of isSpace s] by (cases "dropWhile isSpace s") auto
  then show "list_all isSpace s" by (simp add: list_all_iff)
next
  assume "list_all isSpace s"
  then have "dropWhile isSpace s = []" by (simp add: list_all_iff)
  then show "trim s = []" by (simp add: trim_def del: dropWhile_eq_Nil_conv)
qed

lemma hd_line_tokens:
  assumes "m \<noteq> []" "\<not> isSpace (hd m)"
  shows "ws_tokens (hd (split_on (CHR 0x0A) m)) \<noteq> []"
proof -
  from assms obtain x xs where m: "m = x # xs" and x: "\<not> isSpace x" by (cases m) auto
  then have "x \<noteq> CHR 0x0A" by (auto simp: isSpace_def)
  with m x show ?thesis
    using split_on_ne[of "CHR 0x0A" xs] by (cases "split_on (CHR 0x0A) xs") auto
qed

lemma last_split_on: "m \<noteq> [] \<Longrightarrow> last m \<noteq> c \<Longrightarrow> last m \<in> set (last (split_on c m))"
proof (induction m)
  case Nil
  then show ?case by simp
next
  case (Cons x xs)
  then show ?case
    using split_on_ne[of c xs] by (cases "split_on c xs"; cases xs) (auto split: if_splits)
qed

lemma last_line_tokens:
  assumes "m \<noteq> []" "\<not> isSpace (last m)"
  shows "ws_tokens (last (split_on (CHR 0x0A) m)) \<noteq> []"
proof -
  from assms(2) have "last m \<noteq> CHR 0x0A" by (auto simp: isSpace_def)
  with assms(1) have "last m \<in> set (last (split_on (CHR 0x0A) m))" by (rule last_split_on)
  with assms(2) show ?thesis by (auto simp: ws_tokens_Nil_iff list_all_iff)
qed

lemma dropWhile_replicate_append:
  "P x \<Longrightarrow> dropWhile P (replicate i x @ ys) = dropWhile P ys"
  by (induction i) auto

lemma strip_core:
  assumes "M \<noteq> []" "hd M \<noteq> []" "last M \<noteq> []"
  shows "rev (dropWhile (\<lambda>t. t = []) (rev (dropWhile (\<lambda>t. t = [])
           (replicate i [] @ M @ replicate j [])))) = M"
proof -
  from assms(1,2) obtain h M' where M: "M = h # M'" and h: "h \<noteq> []" by (cases M) auto
  have 1: "dropWhile (\<lambda>t. t = []) (replicate i [] @ M @ replicate j []) = M @ replicate j []"
    using M h by (simp add: dropWhile_replicate_append)
  from assms(1,3) obtain k R where R: "rev M = k # R" and k: "k \<noteq> []"
    by (cases "rev M") (auto simp: last_rev[symmetric] hd_rev)
  have "dropWhile (\<lambda>t. t = []) (rev (M @ replicate j [])) = rev M"
    using R k by (simp add: dropWhile_replicate_append)
  with 1 show ?thesis by simp
qed

lemma map_tokens_strip_blank:
  "map ws_tokens (strip_blank ls) =
     rev (dropWhile (\<lambda>t. t = []) (rev (dropWhile (\<lambda>t. t = []) (map ws_tokens ls))))"
proof -
  have b: "blank = (\<lambda>t. t = []) \<circ> ws_tokens"
    by (auto simp: fun_eq_iff blank_iff)
  show ?thesis
    unfolding strip_blank_def b by (simp add: rev_map dropWhile_map)
qed

lemma line_tokens_trim:
  "\<exists>i j. map ws_tokens (split_on c s) =
     replicate i [] @ map ws_tokens (split_on c (trim s)) @ replicate j []"
proof -
  obtain a b where s: "s = a @ trim s @ b" and a: "list_all isSpace a" and b: "list_all isSpace b"
    using trim_decompose[of s] by blast
  have "map ws_tokens (split_on c (a @ trim s @ b)) =
          replicate (length (split_on c a) - 1) [] @
          map ws_tokens (split_on c (trim s)) @ replicate (length (split_on c b) - 1) []"
    by (simp add: line_tokens_space_prefix[OF a] line_tokens_space_suffix[OF b])
  with s show ?thesis by metis
qed

lemma parseFileList_tokens:
  "parseFileList s =
     (if trim s = [] then []
      else map (\<lambda>l. \<lparr>mods = at (ws_tokens l) 0, file_name = at (ws_tokens l) 1\<rparr>)
               (split_on (CHR 0x0A) (trim s)))"
  by (simp add: parseFileList_def Let_def tokens_eq)

lemma parseFileList_blank: "list_all isSpace s \<Longrightarrow> parseFileList s = []"
  by (simp add: parseFileList_tokens trim_Nil_iff)

lemma parseFileList_lines:
  assumes "well_formed s"
  shows "parseFileList s =
           map (\<lambda>l. \<lparr>mods = at (ws_tokens l) 0, file_name = at (ws_tokens l) 1\<rparr>)
               (filter (\<lambda>l. \<not> blank l) (split_on (CHR 0x0A) s))"
proof -
  let ?nl = "CHR 0x0A"
  let ?T = "\<lambda>s. map ws_tokens (split_on ?nl s)"
  let ?E = "\<lambda>t. \<lparr>mods = at t 0, file_name = at t 1\<rparr>"
  obtain i j where T: "?T s = replicate i [] @ ?T (trim s) @ replicate j []"
    using line_tokens_trim[of ?nl s] by blast
  have rhs: "map (\<lambda>l. ?E (ws_tokens l)) (filter (\<lambda>l. \<not> blank l) (split_on ?nl s))
             = map ?E (filter (\<lambda>t. t \<noteq> []) (?T s))"
    by (simp add: filter_map comp_def blank_iff)
  have flt: "filter (\<lambda>t. t \<noteq> []) (?T s) = filter (\<lambda>t. t \<noteq> []) (?T (trim s))"
    unfolding T by simp
  show ?thesis
  proof (cases "trim s = []")
    case True
    then have "parseFileList s = []" by (simp add: parseFileList_tokens)
    moreover have "map ?E (filter (\<lambda>t. t \<noteq> []) (?T s)) = []"
      using True by (simp add: flt)
    ultimately show ?thesis by (simp only: rhs)
  next
    case False
    let ?M = "?T (trim s)"
    have ne: "?M \<noteq> []" using split_on_ne[of ?nl "trim s"] by simp
    have hd: "hd ?M \<noteq> []"
      using hd_line_tokens[OF False trim_ends(1)[OF False]] split_on_ne[of ?nl "trim s"]
      by (simp add: hd_map)
    have last: "last ?M \<noteq> []"
      using last_line_tokens[OF False trim_ends(2)[OF False]] split_on_ne[of ?nl "trim s"]
      by (simp add: last_map)
    have "map ws_tokens (strip_blank (split_on ?nl s)) = ?M"
      unfolding map_tokens_strip_blank T by (rule strip_core[OF ne hd last])
    moreover from assms have
      "list_all (\<lambda>t. t \<noteq> []) (map ws_tokens (strip_blank (split_on ?nl s)))"
      by (simp add: well_formed_def list_all_iff blank_iff)
    ultimately have "list_all (\<lambda>t. t \<noteq> []) ?M" by simp
    then have "filter (\<lambda>t. t \<noteq> []) ?M = ?M"
      by (simp add: list_all_iff)
    then have "map ?E (filter (\<lambda>t. t \<noteq> []) (?T s)) = map ?E ?M"
      by (simp only: flt)
    moreover have "parseFileList s = map ?E ?M"
      using False by (simp add: parseFileList_tokens comp_def)
    ultimately show ?thesis by (simp only: rhs)
  qed
qed



text \<open>
  C5. For every status text without an interior blank line, the parser yields one entry per
  non-blank line of the text, in order; the entry's modification code is the first
  white-space-delimited token of its line and its path is the second one (\<^verbatim>\<open>undefined\<close>
  where the line has a single token). A text that is empty or holds white space only
  yields the empty list.
\<close>

theorem parseFileList_entries:
  "(well_formed s \<longrightarrow>
      parseFileList s =
        map (\<lambda>l. \<lparr>mods = at (ws_tokens l) 0, file_name = at (ws_tokens l) 1\<rparr>)
            (filter (\<lambda>l. \<not> blank l) (split_on (CHR 0x0A) s)))
   \<and> (list_all isSpace s \<longrightarrow> parseFileList s = [])"
  using parseFileList_lines[of s] parseFileList_blank[of s] by blast

theorem parseFileList_entries_witness:
  "well_formed status_example
   \<and> parseFileList status_example =
       [\<lparr>mods = Some ''M'', file_name = Some ''components/App.tsx''\<rparr>,
        \<lparr>mods = Some ''??'', file_name = Some ''libs/new.js''\<rparr>,
        \<lparr>mods = Some ''D'', file_name = None\<rparr>]
   \<and> list_all isSpace blank_example
   \<and> parseFileList blank_example = []"
proof -
  have wf: "well_formed status_example" by code_simp
  have lines: "map (\<lambda>l. \<lparr>mods = at (ws_tokens l) 0, file_name = at (ws_tokens l) 1\<rparr>)
                 (filter (\<lambda>l. \<not> blank l) (split_on (CHR 0x0A) status_example)) =
       [\<lparr>mods = Some ''M'', file_name = Some ''components/App.tsx''\<rparr>,
        \<lparr>mods = Some ''??'', file_name = Some ''libs/new.js''\<rparr>,
        \<lparr>mods = Some ''D'', file_name = None\<rparr>]"
    by code_simp
  have sp: "list_all isSpace blank_example" by code_simp
  show ?thesis
    using parseFileList_entries[of status_example] parseFileList_entries[of blank_example]
          wf lines sp
    by simp
qed


section \<open>Properties of the change-set extractor and of the invalidation policy\<close>

lemma first_index_append:
  "first_index (xs @ ys) x =
     (if x \<in> set xs then first_index xs x else length xs + first_index ys x)"
  by (auto simp: first_index_def takeWhile_append)

lemma first_index_less: "x \<in> set xs \<Longrightarrow> first_index xs x < length xs"
  by (induction xs) (auto simp: first_index_def)

lemma baseUniq_set: "set (baseUniq xs acc) = set xs \<union> set acc"
  by (induction xs arbitrary: acc) auto

lemma baseUniq_distinct: "distinct acc \<Longrightarrow> distinct (baseUniq xs acc)"
  by (induction xs arbitrary: acc) auto

lemma distinct_sorted_first_index:
  "distinct acc \<Longrightarrow> sorted_wrt (\<lambda>x y. first_index acc x < first_index acc y) acc"
proof (induction acc rule: rev_induct)
  case Nil
  then show ?case by simp
next
  case (snoc a acc)
  then have "sorted_wrt (\<lambda>x y. first_index acc x < first_index acc y) acc" by simp
  then have "sorted_wrt (\<lambda>x y. first_index (acc @ [a]) x < first_index (acc @ [a]) y) acc"
    by (rule sorted_wrt_mono_rel[rotated]) (simp add: first_index_append)
  moreover have "first_index [a] a = 0" by (simp add: first_index_def)
  then have "\<forall>x\<in>set acc. first_index (acc @ [a]) x < first_index (acc @ [a]) a"
    using snoc.prems by (simp add: first_index_append first_index_less)
  ultimately show ?case by (simp add: sorted_wrt_append)
qed

lemma first_index_skip:
  assumes "v \<in> set acc"
  shows "(first_index (acc @ v # vs) x < first_index (acc @ v # vs) y) =
         (first_index (acc @ vs) x < first_index (acc @ vs) y)"
proof -
  have 1: "\<And>z. z \<notin> set acc \<Longrightarrow> first_index (v # vs) z = Suc (first_index vs z)"
    using assms by (auto simp: first_index_def)
  show ?thesis
    using first_index_less[of x acc] first_index_less[of y acc]
    by (auto simp: first_index_append 1)
qed

lemma baseUniq_sorted:
  "distinct acc \<Longrightarrow>
   sorted_wrt (\<lambda>x y. first_index (acc @ xs) x < first_index (acc @ xs) y) (baseUniq xs acc)"
proof (induction xs arbitrary: acc)
  case Nil
  then show ?case by (simp add: distinct_sorted_first_index)
next
  case (Cons v vs)
  show ?case
  proof (cases "v \<in> set acc")
    case True
    with Cons show ?thesis by (simp add: first_index_skip)
  next
    case False
    with Cons.prems have "distinct (acc @ [v])" by simp
    from Cons.IH[OF this] False show ?thesis by simp
  qed
qed

lemma lodash_union_props:
  "distinct (lodash_union a b) \<and> set (lodash_union a b) = set a \<union> set b \<and>
   sorted_wrt (\<lambda>x y. first_index (a @ b) x < first_index (a @ b) y) (lodash_union a b)"
  using baseUniq_sorted[of "[]" "a @ b"]
  by (simp add: lodash_union_def baseUniq_set baseUniq_distinct)

lemma outcome_io_bind:
  "outcome (io_bind m f) = (case outcome m of Inl e \<Rightarrow> Inl e | Inr x \<Rightarrow> outcome (f x))"
  by (auto simp: outcome_def io_bind_def split: prod.splits sum.splits)

lemma trace_io_bind:
  "trace (io_bind m f) = trace m @ (case outcome m of Inl e \<Rightarrow> [] | Inr x \<Rightarrow> trace (f x))"
  by (auto simp: outcome_def trace_def io_bind_def split: prod.splits sum.splits)

lemma outcome_io_return: "outcome (io_return x) = Inr x"
  by (simp add: outcome_def io_return_def)

lemma trace_io_return: "trace (io_return x) = []"
  by (simp add: trace_def io_return_def)

text \<open>
  C6. Whenever both git queries succeed, with the path lists \<open>committed\<close> and
  \<open>uncommitted\<close>, the change set is produced, holds no path twice, holds exactly the paths
  of the two lists, and is ordered by first occurrence in \<open>committed\<close> followed by
  \<open>uncommitted\<close>.
\<close>

theorem getChangedFiles_union:
  assumes "outcome (getCommittedChangedFiles w b) = Inr committed"
    and "outcome (getUncommittedChangedFiles w) = Inr uncommitted"
  shows "\<exists>r. outcome (getChangedFiles w b) = Inr r \<and> distinct r
           \<and> set r = set committed \<union> set uncommitted
           \<and> sorted_wrt (\<lambda>x y. first_index (committed @ uncommitted) x
                                  < first_index (committed @ uncommitted) y) r"
proof -
  have "outcome (getChangedFiles w b) = Inr (lodash_union committed uncommitted)"
    using assms by (simp add: getChangedFiles_def outcome_io_bind outcome_io_return)
  then show ?thesis using lodash_union_props[of committed uncommitted] by blast
qed

theorem getChangedFiles_union_witness:
  "outcome (getChangedFiles incremental_world ''master'') =
     Inr [Some ''components/App.tsx'', Some ''components/ghost.tsx'', Some ''README.md'',
          Some ''libs/new.js'']
   \<and> (\<exists>r. outcome (getChangedFiles incremental_world ''master'') = Inr r \<and> distinct r
         \<and> set r = set [Some ''components/App.tsx'', Some ''components/ghost.tsx'', Some ''README.md'']
                   \<union> set [Some ''components/App.tsx'', Some ''libs/new.js''])"
proof -
  have c: "outcome (getCommittedChangedFiles incremental_world ''master'') =
             Inr [Some ''components/App.tsx'', Some ''components/ghost.tsx'', Some ''README.md'']"
    by code_simp
  have u: "outcome (getUncommittedChangedFiles incremental_world) =
             Inr [Some ''components/App.tsx'', Some ''libs/new.js'']"
    by code_simp
  have v: "outcome (getChangedFiles incremental_world ''master'') =
     Inr [Some ''components/App.tsx'', Some ''components/ghost.tsx'', Some ''README.md'',
          Some ''libs/new.js'']"
    by code_simp
  from getChangedFiles_union[OF c u] v show ?thesis by blast
qed

text \<open>
  What the probe answers when both of its git queries succeed: whether the search term
  occurs in one of the two diffs.
\<close>

lemma indexOf_lower: "- 1 \<le> indexOf s t"
  by (induction s) (auto simp: Let_def)

lemma indexOf_sublist: "indexOf s t \<noteq> - 1 \<longleftrightarrow> sublist t s"
proof (induction s)
  case Nil
  then show ?case by simp
next
  case (Cons c cs)
  have "indexOf cs t + 1 \<noteq> - 1" using indexOf_lower[of cs t] by arith
  with Cons show ?case
    by (auto simp: Let_def sublist_Cons_right)
qed

lemma diffContains_outcome:
  assumes "outcome (runCmd w (''git diff --unified=0 '' @ b @ ''...HEAD '' @ f)) = Inr committedDiff"
    and "outcome (runCmd w (''git diff --unified=0 HEAD '' @ f)) = Inr uncommittedDiff"
  shows "outcome (diffContains w b f t) = Inr (sublist t committedDiff \<or> sublist t uncommittedDiff)"
  using assms by (simp add: diffContains_def outcome_io_bind outcome_io_return indexOf_sublist)

lemma policy_outcome:
  "outcome (getFilesThatMayPossiblyInvalidateExistingLintChecks w cs b) =
     (if Some ''package.json'' \<in> set cs
      then (case outcome (diffContains w b ''package.json'' ''eslint'') of
              Inl e \<Rightarrow> Inl e
            | Inr hit \<Rightarrow>
                Inr ((if Some ''.eslintignore'' \<in> set cs then [''.eslintignore''] else [])
                     @ (if Some ''.eslintrc'' \<in> set cs then [''.eslintrc''] else [])
                     @ (if hit then [''package.json''] else [])))
      else Inr ((if Some ''.eslintignore'' \<in> set cs then [''.eslintignore''] else [])
                @ (if Some ''.eslintrc'' \<in> set cs then [''.eslintrc''] else [])))"
  by (simp add: getFilesThatMayPossiblyInvalidateExistingLintChecks_def Let_def
                outcome_io_bind outcome_io_return split: sum.splits)

text \<open>
  C4. For every change set for which the probe, where it is consulted, answers \<open>hit\<close>, the
  trigger list holds exactly those of \<^verbatim>\<open>.eslintignore\<close>, \<^verbatim>\<open>.eslintrc\<close>,
  \<^verbatim>\<open>package.json\<close>, in that order, that are in the change set, \<^verbatim>\<open>package.json\<close> only
  if the probe's answer is true. A change set that holds \<^verbatim>\<open>.eslintrc\<close> alone gives the
  trigger list of \<^verbatim>\<open>.eslintrc\<close> alone.
\<close>

theorem trigger_list_exact:
  "((Some ''package.json'' \<in> set cs \<longrightarrow>
       outcome (diffContains w b ''package.json'' ''eslint'') = Inr hit) \<longrightarrow>
     outcome (getFilesThatMayPossiblyInvalidateExistingLintChecks w cs b) =
       Inr (filter (\<lambda>n. Some n \<in> set cs \<and> (n = ''package.json'' \<longrightarrow> hit))
                   [''.eslintignore'', ''.eslintrc'', ''package.json'']))
   \<and> outcome (getFilesThatMayPossiblyInvalidateExistingLintChecks w [Some ''.eslintrc''] b) =
       Inr [''.eslintrc'']"
  by (simp add: policy_outcome)

theorem trigger_list_exact_witness:
  "outcome (diffContains manifest_world ''master'' ''package.json'' ''eslint'') = Inr True
   \<and> outcome (getFilesThatMayPossiblyInvalidateExistingLintChecks manifest_world
        [Some ''package.json'', Some ''.eslintrc''] ''master'') = Inr [''.eslintrc'', ''package.json'']"
proof -
  have p: "outcome (diffContains manifest_world ''master'' ''package.json'' ''eslint'') = Inr True"
    by code_simp
  show ?thesis
    using trigger_list_exact[of "[Some ''package.json'', Some ''.eslintrc'']" manifest_world
                                "''master''" True] p
    by simp
qed


section \<open>Properties of the orchestrator\<close>

lemma io_bind_Inr: "io_bind (t, Inr x) f = (t @ fst (f x), snd (f x))"
  by (simp add: io_bind_def split: prod.splits)

lemma io_bind_Inl: "io_bind (t, Inl e) f = (t, Inl e)"
  by (simp add: io_bind_def)

lemma handleLintResults_Some:
  "handleLintResults (Some r) =
     ([LogInfo (resultText r),
       if errorCount r \<noteq> 0 \<or> warningCount r \<noteq> 0
       then LogError ''Error while display the lint results - ''
       else LogSuccess ''Lint checks passed''],
      Inr ())"
  by (simp add: handleLintResults_def io_catch_def io_then_def io_bind_def io_throw_def
                logInfo_def logError_def logSuccess_def io_emit_def)

lemma handleLintResults_None:
  "handleLintResults None =
     ([], Inl (TypeError ''Cannot destructure property resultText of undefined''))"
  by (simp add: handleLintResults_def io_throw_def)

lemma runLintOnFiles_cases:
  "runLintOnFiles w p fix =
     (case lintFiles w p fix of
        Inl e \<Rightarrow> ([LintFiles p fix, LogError ''Error while running Linter on files''], Inr None)
      | Inr results \<Rightarrow>
          (case (if fix then outputFixes w results else None) of
             Some e \<Rightarrow> ([LintFiles p fix, OutputFixes,
                          LogError ''Error while running Linter on files''], Inr None)
           | None \<Rightarrow>
               (case stylish w results of
                  Inl e \<Rightarrow> ([LintFiles p fix] @ (if fix then [OutputFixes] else [])
                            @ [LogError ''Error while running Linter on files''], Inr None)
                | Inr text \<Rightarrow>
                    ([LintFiles p fix] @ (if fix then [OutputFixes] else []),
                     Inr (Some \<lparr>resultText = text,
                                 warningCount = sum_list (map fileWarningCount results),
                                 errorCount = sum_list (map fileErrorCount results)\<rparr>)))))"
  by (simp add: runLintOnFiles_def io_catch_def io_then_def io_bind_def io_throw_def
                io_return_def logError_def io_emit_def eslint_lintFiles_def
                eslint_outputFixes_def eslint_format_def
           split: sum.splits option.splits)

lemma lintAndReport_cases:
  "lintAndReport w p fix =
     (case runLintOnFiles w p fix of
        (t, Inl e) \<Rightarrow> (t, Inl e)
      | (t, Inr None) \<Rightarrow>
          (t, Inl (TypeError ''Cannot destructure property resultText of undefined''))
      | (t, Inr (Some r)) \<Rightarrow>
          (t @ [LogInfo (resultText r),
                if errorCount r \<noteq> 0 \<or> warningCount r \<noteq> 0
                then LogError ''Error while display the lint results - ''
                else LogSuccess ''Lint checks passed''],
           Inr ()))"
  by (simp add: lintAndReport_def io_bind_def handleLintResults_Some handleLintResults_None
           split: prod.splits sum.splits option.splits)

lemma lintAndReport_lint_invocations:
  "lint_invocations (trace (lintAndReport w p fix)) = [LintFiles p fix]"
  by (simp add: lintAndReport_cases runLintOnFiles_cases lint_invocations_def trace_def
           split: sum.splits option.splits)

lemma lintAndReport_git_queries:
  "git_queries (trace (lintAndReport w p fix)) = []"
  by (simp add: lintAndReport_cases runLintOnFiles_cases git_queries_def trace_def
           split: sum.splits option.splits)

lemma runLintOnFiles_git_independent:
  "runLintOnFiles (w\<lparr>spawn := g, existsSync := x\<rparr>) p fix = runLintOnFiles w p fix"
  by (cases "fix") (simp_all add: runLintOnFiles_cases cong: sum.case_cong option.case_cong)

lemma runLinting_full:
  "''--changed'' \<notin> set (argv w) \<Longrightarrow>
   runLinting w =
     io_then (logInfo ''Running lint checks on all files'')
       (lintAndReport w (map Some sourceFoldersToCheck) (''--fix'' \<in> set (argv w)))"
  by (simp add: runLinting_def hasArg_def lintAndReport_def Let_def)

lemma trace_io_then_logInfo:
  "trace (io_then (logInfo msg) m) = LogInfo msg # trace m"
  "outcome (io_then (logInfo msg) m) = outcome m"
  by (simp_all add: io_then_def io_bind_def logInfo_def io_emit_def trace_def outcome_def
               split: prod.splits)

lemma events_of_main: "events_of (main w) =
    trace (runLinting w) @
    (case outcome (runLinting w) of
       Inl ex \<Rightarrow> if message ex \<noteq> [] then [LogError (message ex)] else []
     | Inr u \<Rightarrow> [])"
  by (simp add: events_of_def main_def trace_def outcome_def split: prod.splits sum.splits)

lemma exitCode_of_main: "exitCode_of (main w) =
    (case outcome (runLinting w) of Inl ex \<Rightarrow> 1 | Inr u \<Rightarrow> 0)"
  by (simp add: exitCode_of_def main_def outcome_def split: prod.splits sum.splits)

text \<open>
  C9. Whenever \<^verbatim>\<open>--changed\<close> is not among the arguments, the run is the same whatever
  the git state and the file system are, it spawns no command, and the lint engine is
  called once, on the fixed source folders.
\<close>

theorem full_run_ignores_git:
  assumes "''--changed'' \<notin> set (argv w)"
  shows "main (w\<lparr>spawn := g1, existsSync := x1\<rparr>) = main (w\<lparr>spawn := g2, existsSync := x2\<rparr>)
         \<and> git_queries (events_of (main w)) = []
         \<and> lint_invocations (events_of (main w)) =
             [LintFiles (map Some sourceFoldersToCheck) (''--fix'' \<in> set (argv w))]"
proof -
  have same: "\<And>g x. runLinting (w\<lparr>spawn := g, existsSync := x\<rparr>) = runLinting w"
    using assms
    by (simp add: runLinting_full lintAndReport_def runLintOnFiles_git_independent)
  have 1: "main (w\<lparr>spawn := g1, existsSync := x1\<rparr>) = main (w\<lparr>spawn := g2, existsSync := x2\<rparr>)"
    by (simp add: main_def same)
  have 2: "git_queries (events_of (main w)) = []"
    using lintAndReport_git_queries[of w "map Some sourceFoldersToCheck" "''--fix'' \<in> set (argv w)"]
    by (simp add: events_of_main runLinting_full[OF assms] trace_io_then_logInfo git_queries_def
             split: sum.splits)
  have 3: "lint_invocations (events_of (main w)) =
             [LintFiles (map Some sourceFoldersToCheck) (''--fix'' \<in> set (argv w))]"
    using lintAndReport_lint_invocations[of w "map Some sourceFoldersToCheck" "''--fix'' \<in> set (argv w)"]
    by (simp add: events_of_main runLinting_full[OF assms] trace_io_then_logInfo
                  lint_invocations_def split: sum.splits)
  from 1 2 3 show ?thesis by blast
qed

theorem full_run_ignores_git_witness:
  "''--changed'' \<notin> set (argv full_world)
   \<and> main (full_world\<lparr>spawn := spawn incremental_world, existsSync := existsSync incremental_world\<rparr>)
     = main (full_world\<lparr>spawn := spawn manifest_world, existsSync := existsSync manifest_world\<rparr>)
   \<and> git_queries (events_of (main full_world)) = []
   \<and> lint_invocations (events_of (main full_world)) =
        [LintFiles (map Some sourceFoldersToCheck) (''--fix'' \<in> set (argv full_world))]"
proof -
  have a: "''--changed'' \<notin> set (argv full_world)" by code_simp
  from full_run_ignores_git[OF a] a show ?thesis by blast
qed

text \<open>
  C1. A full run whose lint results count three errors and one warning prints the report
  and the error line of \<^verbatim>\<open>handleLintResults\<close>, and the process ends with exit code 0:
  the exception thrown to make the exit code 1 is caught by the \<^verbatim>\<open>catch\<close> of the same
  function, which therefore never throws once it has results to report.
\<close>

theorem lint_findings_exit_zero:
  "main failing_lint_world =
     ([LogInfo ''Running lint checks on all files'',
       LintFiles (map Some sourceFoldersToCheck) False,
       LogInfo ''report'',
       LogError ''Error while display the lint results - ''],
      0)
   \<and> (\<forall>r. outcome (handleLintResults (Some r)) = Inr ())"
proof
  show "main failing_lint_world =
     ([LogInfo ''Running lint checks on all files'',
       LintFiles (map Some sourceFoldersToCheck) False,
       LogInfo ''report'',
       LogError ''Error while display the lint results - ''],
      0)"
    by code_simp
  show "\<forall>r. outcome (handleLintResults (Some r)) = Inr ()"
    by (simp add: handleLintResults_Some outcome_def)
qed

theorem lint_findings_exit_zero_witness:
  "outcome (handleLintResults
     (Some \<lparr>resultText = ''report'', warningCount = 1, errorCount = 3\<rparr>)) = Inr ()
   \<and> exitCode_of (main failing_lint_world) = 0"
  using lint_findings_exit_zero by (simp add: exitCode_of_def)

text \<open>
  C2. A full run whose lint engine throws logs the failure inside \<^verbatim>\<open>runLintOnFiles\<close>,
  which then returns \<^verbatim>\<open>undefined\<close>; \<^verbatim>\<open>handleLintResults\<close> cannot destructure that value, its
  \<^verbatim>\<open>TypeError\<close> leaves \<^verbatim>\<open>runLinting\<close>, and the process ends with exit code 1.
\<close>

theorem engine_failure_aborts_run:
  "runLintOnFiles broken_engine_world (map Some sourceFoldersToCheck) False =
     ([LintFiles (map Some sourceFoldersToCheck) False,
       LogError ''Error while running Linter on files''], Inr None)
   \<and> outcome (runLinting broken_engine_world) =
       Inl (TypeError ''Cannot destructure property resultText of undefined'')
   \<and> main broken_engine_world =
     ([LogInfo ''Running lint checks on all files'',
       LintFiles (map Some sourceFoldersToCheck) False,
       LogError ''Error while running Linter on files'',
       LogError ''Cannot destructure property resultText of undefined''],
      1)"
  by code_simp


lemma js_filter_subseq: "js_filter p xs = Inr r \<Longrightarrow> subseq r xs"
  by (induction xs arbitrary: r) (auto split: sum.splits if_splits)

lemma js_filter_total:
  "\<forall>x\<in>set xs. \<exists>b. p x = Inr b \<Longrightarrow> js_filter p xs = Inr (filter (\<lambda>x. p x = Inr True) xs)"
  by (induction xs) auto

lemma filterFilesThatStillExist_defined: "None \<notin> set (filterFilesThatStillExist w fs)"
  by (auto simp: filterFilesThatStillExist_def)

lemma filterFilesInSourceFolders_defined:
  "None \<notin> set fs \<Longrightarrow>
   filterFilesInSourceFolders fs = Inr (filter (\<lambda>f. inSourceFolder f = Inr True) fs)"
proof -
  assume "None \<notin> set fs"
  then have "\<forall>f\<in>set fs. \<exists>p. f = Some p" by (metis option.exhaust)
  then have "\<forall>f\<in>set fs. \<exists>b. inSourceFolder f = Inr b"
    by (auto simp: inSourceFolder_def)
  then show ?thesis
    unfolding filterFilesInSourceFolders_def by (rule js_filter_total)
qed

lemma filterFilesOfCorrectExtension_defined:
  "None \<notin> set fs \<Longrightarrow>
   filterFilesOfCorrectExtension fs = Inr (filter (\<lambda>f. hasCorrectExtension f = Inr True) fs)"
proof -
  assume "None \<notin> set fs"
  then have "\<forall>f\<in>set fs. \<exists>p. f = Some p" by (metis option.exhaust)
  then have "\<forall>f\<in>set fs. \<exists>b. hasCorrectExtension f = Inr b"
    by (auto simp: hasCorrectExtension_def)
  then show ?thesis
    unfolding filterFilesOfCorrectExtension_def by (rule js_filter_total)
qed

lemma trace_runCmd_exec: "list_all is_exec (trace (runCmd w cmd))"
  by (simp add: runCmd_trace)

lemma exec_only_bind:
  "list_all is_exec (trace m) \<Longrightarrow> (\<And>x. list_all is_exec (trace (f x))) \<Longrightarrow>
   list_all is_exec (trace (io_bind m f))"
  by (simp add: trace_io_bind split: sum.splits)

lemma getChangedFiles_exec_only: "list_all is_exec (trace (getChangedFiles w b))"
  unfolding getChangedFiles_def getCommittedChangedFiles_def getUncommittedChangedFiles_def
  by (intro exec_only_bind trace_runCmd_exec) (simp_all add: trace_io_return)

lemma diffContains_exec_only: "list_all is_exec (trace (diffContains w b f t))"
  unfolding diffContains_def
  by (intro exec_only_bind trace_runCmd_exec) (simp_all add: trace_io_return)

lemma policy_exec_only:
  "list_all is_exec (trace (getFilesThatMayPossiblyInvalidateExistingLintChecks w cs b))"
  unfolding getFilesThatMayPossiblyInvalidateExistingLintChecks_def Let_def
  by (intro exec_only_bind) (simp_all add: trace_io_return diffContains_exec_only)

lemma exec_only_no_lint: "list_all is_exec t \<Longrightarrow> lint_invocations t = []"
  by (induction t) (auto simp: lint_invocations_def elim: is_exec.elims)

text \<open>
  The incremental run, once the change set is extracted and the invalidation policy has
  answered for the paths of it that still exist.
\<close>

lemma runLinting_changed:
  assumes flag: "''--changed'' \<in> set (argv w)"
    and cs: "getChangedFiles w baseBranchName = (t1, Inr cs)"
    and pol: "getFilesThatMayPossiblyInvalidateExistingLintChecks w
                (filterFilesThatStillExist w cs) baseBranchName = (t2, Inr triggers)"
    and files: "files = filter (\<lambda>f. hasCorrectExtension f = Inr True)
                 (filter (\<lambda>f. inSourceFolder f = Inr True) (filterFilesThatStillExist w cs))"
    and rest: "rest =
            (if triggers \<noteq> [] then
               io_then (logInfo (''Running lint checks on all files, since changes were made to: ''
                                 @ join '', '' triggers))
                 (lintAndReport w (map Some sourceFoldersToCheck) (''--fix'' \<in> set (argv w)))
             else if files = [] then
               logInfo ''There are no updated files since master. No linting required.''
             else
               io_then (logInfo (''Running lint checks on '' @ string_of_nat (length files)
                                 @ '' files(s), which were changed since '' @ [CHR 0x22]
                                 @ ''master'' @ [CHR 0x22] @ ''.''))
                 (lintAndReport w files (''--fix'' \<in> set (argv w))))"
  shows "trace (runLinting w) = t1 @ t2 @ trace rest" and "outcome (runLinting w) = outcome rest"
proof -
  let ?ex = "filterFilesThatStillExist w cs"
  let ?inF = "filter (\<lambda>f. inSourceFolder f = Inr True) ?ex"
  have d1: "None \<notin> set ?ex" by (rule filterFilesThatStillExist_defined)
  then have d2: "None \<notin> set ?inF" by simp
  have f1: "filterFilesInSourceFolders ?ex = Inr ?inF"
    by (rule filterFilesInSourceFolders_defined[OF d1])
  have f2: "filterFilesOfCorrectExtension ?inF = Inr files"
    unfolding files by (rule filterFilesOfCorrectExtension_defined[OF d2])
  have cs': "getChangedFiles w ''master'' = (t1, Inr cs)"
    using cs by (simp add: baseBranchName_def)
  have pol': "getFilesThatMayPossiblyInvalidateExistingLintChecks w ?ex ''master'' =
                (t2, Inr triggers)"
    using pol by (simp add: baseBranchName_def)
  have "runLinting w = (t1 @ t2 @ fst rest, snd rest)"
    using flag unfolding rest
    by (simp add: runLinting_def hasArg_def Let_def cs' pol' io_bind_Inr io_of_def f1 f2
                  lintAndReport_def baseBranchName_def split: prod.splits)
  then show "trace (runLinting w) = t1 @ t2 @ trace rest"
    and "outcome (runLinting w) = outcome rest"
    by (simp_all add: trace_def outcome_def)
qed

lemma lint_invocations_append:
  "lint_invocations (xs @ ys) = lint_invocations xs @ lint_invocations ys"
  by (simp add: lint_invocations_def)

lemma lint_invocations_logInfo: "lint_invocations (trace (logInfo msg)) = []"
  by (simp add: lint_invocations_def logInfo_def io_emit_def trace_def)

lemma lint_invocations_then_logInfo:
  "lint_invocations (trace (io_then (logInfo msg) m)) = lint_invocations (trace m)"
  by (simp add: trace_io_then_logInfo lint_invocations_def)

lemma incremental_lint_scope:
  assumes flag: "''--changed'' \<in> set (argv w)"
    and cs: "getChangedFiles w baseBranchName = (t1, Inr cs)"
    and pol: "getFilesThatMayPossiblyInvalidateExistingLintChecks w
                (filterFilesThatStillExist w cs) baseBranchName = (t2, Inr triggers)"
    and files: "files = filter (\<lambda>f. hasCorrectExtension f = Inr True)
                 (filter (\<lambda>f. inSourceFolder f = Inr True) (filterFilesThatStillExist w cs))"
  shows "lint_invocations (events_of (main w)) =
     (if triggers \<noteq> [] then [LintFiles (map Some sourceFoldersToCheck) (''--fix'' \<in> set (argv w))]
      else if files = [] then []
      else [LintFiles files (''--fix'' \<in> set (argv w))])"
proof -
  have t1: "lint_invocations t1 = []"
    using getChangedFiles_exec_only[of w baseBranchName] cs
    by (simp add: trace_def exec_only_no_lint)
  have t2: "lint_invocations t2 = []"
    using policy_exec_only[of w "filterFilesThatStillExist w cs" baseBranchName] pol
    by (simp add: trace_def exec_only_no_lint)
  have tail: "\<And>r. lint_invocations
                 (case r of Inl ex \<Rightarrow> if message ex \<noteq> [] then [LogError (message ex)] else []
                  | Inr (u::unit) \<Rightarrow> []) = []"
    by (simp add: lint_invocations_def split: sum.splits)
  show ?thesis
    unfolding events_of_main lint_invocations_append tail
              runLinting_changed(1)[OF flag cs pol files refl]
    by (simp add: lint_invocations_append t1 t2 lint_invocations_logInfo
                  lint_invocations_then_logInfo lintAndReport_lint_invocations)
qed

text \<open>
  C8. In an incremental run whose invalidation policy finds no trigger and whose filters
  leave no path, nothing is done after the git queries but to report that no linting is
  required: the lint engine is not called and the process ends with exit code 0.
\<close>

theorem empty_change_set_is_noop:
  assumes flag: "''--changed'' \<in> set (argv w)"
    and cs: "getChangedFiles w baseBranchName = (t1, Inr cs)"
    and pol: "getFilesThatMayPossiblyInvalidateExistingLintChecks w
                (filterFilesThatStillExist w cs) baseBranchName = (t2, Inr [])"
    and inF: "filterFilesInSourceFolders (filterFilesThatStillExist w cs) = Inr inFolders"
    and ext: "filterFilesOfCorrectExtension inFolders = Inr []"
  shows "main w =
           (t1 @ t2 @ [LogInfo ''There are no updated files since master. No linting required.''],
            0)
         \<and> lint_invocations (events_of (main w)) = []"
proof -
  let ?ex = "filterFilesThatStillExist w cs"
  define files where "files = filter (\<lambda>f. hasCorrectExtension f = Inr True)
                 (filter (\<lambda>f. inSourceFolder f = Inr True) ?ex)"
  have d1: "None \<notin> set ?ex" by (rule filterFilesThatStillExist_defined)
  from inF filterFilesInSourceFolders_defined[OF d1]
  have i: "inFolders = filter (\<lambda>f. inSourceFolder f = Inr True) ?ex" by simp
  then have "None \<notin> set inFolders" using d1 by simp
  from ext filterFilesOfCorrectExtension_defined[OF this]
  have "[] = filter (\<lambda>f. hasCorrectExtension f = Inr True) inFolders" by (simp only: sum.inject)
  then have e: "files = []" unfolding files_def i by (rule sym)
  have "trace (runLinting w) =
          t1 @ t2 @ [LogInfo ''There are no updated files since master. No linting required.'']"
    and "outcome (runLinting w) = Inr ()"
    unfolding runLinting_changed[OF flag cs pol files_def refl]
    by (simp_all add: e logInfo_def io_emit_def trace_def outcome_def)
  then have m: "main w =
          (t1 @ t2 @ [LogInfo ''There are no updated files since master. No linting required.''],
           0)"
    by (cases "runLinting w") (auto simp: main_def trace_def outcome_def)
  have "lint_invocations (events_of (main w)) = []"
    by (simp add: incremental_lint_scope[OF flag cs pol files_def] e)
  with m show ?thesis by simp
qed

theorem empty_change_set_is_noop_witness:
  "main readme_world =
     ([Exec ''git diff --name-status master...HEAD'', Exec ''git status --porcelain'',
       LogInfo ''There are no updated files since master. No linting required.''], 0)
   \<and> lint_invocations (events_of (main readme_world)) = []"
proof -
  have flag: "''--changed'' \<in> set (argv readme_world)" by code_simp
  have cs: "getChangedFiles readme_world baseBranchName =
              ([Exec ''git diff --name-status master...HEAD'', Exec ''git status --porcelain''],
               Inr [Some ''README.md'', Some ''components/ghost.tsx''])"
    by code_simp
  have pol: "getFilesThatMayPossiblyInvalidateExistingLintChecks readme_world
               (filterFilesThatStillExist readme_world
                  [Some ''README.md'', Some ''components/ghost.tsx'']) baseBranchName = ([], Inr [])"
    by code_simp
  have inF: "filterFilesInSourceFolders
               (filterFilesThatStillExist readme_world
                  [Some ''README.md'', Some ''components/ghost.tsx'']) = Inr []"
    by code_simp
  have ext: "filterFilesOfCorrectExtension [] = Inr []"
    by code_simp
  note r = empty_change_set_is_noop[OF flag cs pol inF ext]
  from r have a: "main readme_world =
     ([Exec ''git diff --name-status master...HEAD'', Exec ''git status --porcelain'',
       LogInfo ''There are no updated files since master. No linting required.''], 0)"
    by simp
  from r have b: "lint_invocations (events_of (main readme_world)) = []"
    by (rule conjunct2)
  from a b show ?thesis by (rule conjI)
qed

lemma lint_event_in_invocations:
  "LintFiles paths fx \<in> set evs \<Longrightarrow> LintFiles paths fx \<in> set (lint_invocations evs)"
  by (simp add: lint_invocations_def)

lemma subseq_filterFilesThatStillExist: "subseq (filterFilesThatStillExist w fs) fs"
  by (simp add: filterFilesThatStillExist_def)

text \<open>
  C10. Each of the three filters returns a subsequence of the list it is given (the first
  two whenever they return at all), and in an incremental run without trigger every path
  list handed to the lint engine is a subsequence of the extracted change set, so its
  paths are all paths of the change set.
\<close>

theorem filters_return_subsequences:
  "(filterFilesInSourceFolders fs = Inr r1 \<longrightarrow> subseq r1 fs)
   \<and> (filterFilesOfCorrectExtension fs = Inr r2 \<longrightarrow> subseq r2 fs)
   \<and> subseq (filterFilesThatStillExist w fs) fs
   \<and> (''--changed'' \<in> set (argv w)
        \<and> getChangedFiles w baseBranchName = (t1, Inr cs)
        \<and> getFilesThatMayPossiblyInvalidateExistingLintChecks w
             (filterFilesThatStillExist w cs) baseBranchName = (t2, Inr [])
        \<and> LintFiles paths fx \<in> set (events_of (main w))
      \<longrightarrow> subseq paths cs \<and> set paths \<subseteq> set cs)"
proof (intro conjI impI)
  assume "filterFilesInSourceFolders fs = Inr r1"
  then show "subseq r1 fs"
    unfolding filterFilesInSourceFolders_def by (rule js_filter_subseq)
next
  assume "filterFilesOfCorrectExtension fs = Inr r2"
  then show "subseq r2 fs"
    unfolding filterFilesOfCorrectExtension_def by (rule js_filter_subseq)
next
  show "subseq (filterFilesThatStillExist w fs) fs"
    by (rule subseq_filterFilesThatStillExist)
next
  assume a: "''--changed'' \<in> set (argv w)
        \<and> getChangedFiles w baseBranchName = (t1, Inr cs)
        \<and> getFilesThatMayPossiblyInvalidateExistingLintChecks w
             (filterFilesThatStillExist w cs) baseBranchName = (t2, Inr [])
        \<and> LintFiles paths fx \<in> set (events_of (main w))"
  define files where "files = filter (\<lambda>f. hasCorrectExtension f = Inr True)
                 (filter (\<lambda>f. inSourceFolder f = Inr True) (filterFilesThatStillExist w cs))"
  from a have flag: "''--changed'' \<in> set (argv w)"
    and cs: "getChangedFiles w baseBranchName = (t1, Inr cs)"
    and pol: "getFilesThatMayPossiblyInvalidateExistingLintChecks w
             (filterFilesThatStillExist w cs) baseBranchName = (t2, Inr [])"
    and ev: "LintFiles paths fx \<in> set (events_of (main w))"
    by simp_all
  from ev have "LintFiles paths fx \<in> set (lint_invocations (events_of (main w)))"
    by (rule lint_event_in_invocations)
  then have p: "paths = files"
    unfolding incremental_lint_scope[OF flag cs pol files_def]
    by (simp split: if_splits)
  have "subseq files (filterFilesThatStillExist w cs)"
    unfolding files_def
    by (metis subseq_filter_left subseq_order.trans)
  then have sub: "subseq files cs"
    using subseq_filterFilesThatStillExist[of w cs] by (metis subseq_order.trans)
  then have "set files \<subseteq> set cs" by (auto elim: list_emb_set)
  with sub p show "subseq paths cs" and "set paths \<subseteq> set cs" by simp_all
qed

theorem filters_return_subsequences_witness:
  "subseq [Some ''components/App.tsx''] [Some ''components/App.tsx'', Some ''README.md'']
   \<and> subseq [Some ''libs/new.js''] [Some ''libs/new.js'', Some ''libs/notes.txt'']
   \<and> subseq (filterFilesThatStillExist incremental_world [Some ''components/ghost.tsx''])
              [Some ''components/ghost.tsx'']
   \<and> LintFiles [Some ''components/App.tsx'', Some ''libs/new.js''] False
         \<in> set (events_of (main incremental_world))
   \<and> subseq [Some ''components/App.tsx'', Some ''libs/new.js'']
        [Some ''components/App.tsx'', Some ''components/ghost.tsx'', Some ''README.md'',
         Some ''libs/new.js'']"
proof -
  have f1: "filterFilesInSourceFolders [Some ''components/App.tsx'', Some ''README.md''] =
              Inr [Some ''components/App.tsx'']"
    by code_simp
  have f2: "filterFilesOfCorrectExtension [Some ''libs/new.js'', Some ''libs/notes.txt''] =
              Inr [Some ''libs/new.js'']"
    by code_simp
  have flag: "''--changed'' \<in> set (argv incremental_world)" by code_simp
  have cs: "getChangedFiles incremental_world baseBranchName =
              ([Exec ''git diff --name-status master...HEAD'', Exec ''git status --porcelain''],
               Inr [Some ''components/App.tsx'', Some ''components/ghost.tsx'', Some ''README.md'',
                    Some ''libs/new.js''])"
    by code_simp
  have pol: "getFilesThatMayPossiblyInvalidateExistingLintChecks incremental_world
               (filterFilesThatStillExist incremental_world
                  [Some ''components/App.tsx'', Some ''components/ghost.tsx'', Some ''README.md'',
                   Some ''libs/new.js'']) baseBranchName = ([], Inr [])"
    by code_simp
  have ev: "LintFiles [Some ''components/App.tsx'', Some ''libs/new.js''] False
              \<in> set (events_of (main incremental_world))"
    by code_simp
  note r1 = filters_return_subsequences[where fs = "[Some ''components/App.tsx'', Some ''README.md'']"
              and ?r1.0 = "[Some ''components/App.tsx'']"]
  note r2 = filters_return_subsequences[where fs = "[Some ''libs/new.js'', Some ''libs/notes.txt'']"
              and ?r2.0 = "[Some ''libs/new.js'']"]
  note r3 = filters_return_subsequences[where fs = "[Some ''components/ghost.tsx'']"
              and w = incremental_world]
  note r4 = filters_return_subsequences[where w = incremental_world
              and cs = "[Some ''components/App.tsx'', Some ''components/ghost.tsx'',
                         Some ''README.md'', Some ''libs/new.js'']"
              and paths = "[Some ''components/App.tsx'', Some ''libs/new.js'']"
              and fx = False and ?t1.0 = "[Exec ''git diff --name-status master...HEAD'',
                                           Exec ''git status --porcelain'']"
              and ?t2.0 = "[]"]
  from r1 f1 have a: "subseq [Some ''components/App.tsx'']
                        [Some ''components/App.tsx'', Some ''README.md'']" by blast
  from r2 f2 have b: "subseq [Some ''libs/new.js''] [Some ''libs/new.js'', Some ''libs/notes.txt'']"
    by blast
  from r3 have c: "subseq (filterFilesThatStillExist incremental_world [Some ''components/ghost.tsx''])
              [Some ''components/ghost.tsx'']" by blast
  from r4 flag cs pol ev have d: "subseq [Some ''components/App.tsx'', Some ''libs/new.js'']
        [Some ''components/App.tsx'', Some ''components/ghost.tsx'', Some ''README.md'',
         Some ''libs/new.js'']" by blast
  from a b c ev d show ?thesis by blast
qed

text \<open>
  C3. Where the change set holds a deleted \<^verbatim>\<open>.eslintrc\<close> and a changed component,
  \<open>runLinting\<close> drops the deleted file before anything else looks at the change set, and
  lints the component alone. With the existence filter last, as the specification orders
  the filters, the invalidation policy sees \<^verbatim>\<open>.eslintrc\<close> and every source folder is
  linted; that is also what \<open>runLinting\<close> itself does when \<^verbatim>\<open>.eslintrc\<close> is modified and
  not deleted.
\<close>

theorem deleted_trigger_file_skips_full_run:
  "outcome (getChangedFiles deleted_config_world baseBranchName) =
     Inr [Some ''.eslintrc'', Some ''components/App.tsx'']
   \<and> main deleted_config_world =
       ([Exec ''git diff --name-status master...HEAD'', Exec ''git status --porcelain'',
         LogInfo (''Running lint checks on 1 files(s), which were changed since ''
                  @ [CHR 0x22] @ ''master'' @ [CHR 0x22] @ ''.''),
         LintFiles [Some ''components/App.tsx''] False,
         LogInfo ''report'', LogSuccess ''Lint checks passed''], 0)
   \<and> lint_invocations (trace (runLinting_existence_last deleted_config_world)) =
       [LintFiles (map Some sourceFoldersToCheck) False]
   \<and> trace (runLinting deleted_config_world)
       \<noteq> trace (runLinting_existence_last deleted_config_world)
   \<and> lint_invocations (events_of (main changed_config_world)) =
       [LintFiles (map Some sourceFoldersToCheck) False]"
  by code_simp

end
